theory Spec2Isabelle
  imports Complex_Main "HOL-Library.Word"
begin

section \<open>Strings and thrown values\<close>

text \<open>
  JavaScript's \<^verbatim>\<open>s.includes(sub)\<close>: \<open>sub\<close> occurs in \<open>s\<close> as a contiguous block.
\<close>

fun startsWith :: "string \<Rightarrow> string \<Rightarrow> bool" where
  "startsWith s [] = True"
| "startsWith [] (c # cs) = False"
| "startsWith (x # xs) (c # cs) = (x = c \<and> startsWith xs cs)"

fun includesStr :: "string \<Rightarrow> string \<Rightarrow> bool" where
  "includesStr [] sub = (sub = [])"
| "includesStr (x # xs) sub = (startsWith (x # xs) sub \<or> includesStr xs sub)"

text \<open>
  A value caught by \<^verbatim>\<open>catch (error: any)\<close>. The code reads only \<^verbatim>\<open>error.toString()\<close>
  and \<^verbatim>\<open>error.message\<close> (which may be undefined).
\<close>

record js_error =
  toString :: string
  message :: "string option"

text \<open>\<^verbatim>\<open>error.toString() || error.message || ""\<close>: the empty string is falsy.\<close>

definition errorStr :: "js_error \<Rightarrow> string" where
  "errorStr error =
     (if toString error \<noteq> [] then toString error
      else case message error of
             Some m \<Rightarrow> (if m \<noteq> [] then m else [])
           | None \<Rightarrow> [])"

section \<open>Retry policy executor: \<^verbatim>\<open>withRetry\<close> (src/App.tsx, lines 496-533)\<close>

definition isRateLimit :: "string \<Rightarrow> bool" where
  "isRateLimit errorStr' \<longleftrightarrow>
     includesStr errorStr' ''429'' \<or> includesStr errorStr' ''RESOURCE_EXHAUSTED''"

definition isTransient :: "string \<Rightarrow> bool" where
  "isTransient errorStr' \<longleftrightarrow>
     isRateLimit errorStr' \<or>
     includesStr errorStr' ''500'' \<or>
     includesStr errorStr' ''503'' \<or>
     includesStr errorStr' ''Rpc failed'' \<or>
     includesStr errorStr' ''xhr error''"

text \<open>
  JavaScript numbers are modelled as exact reals. \<open>attempt\<close> is the value of the counter
  after \<^verbatim>\<open>attempt++\<close>; \<open>random\<close> is the value returned by \<^verbatim>\<open>Math.random()\<close>.
\<close>

definition backoffFactor :: "bool \<Rightarrow> real" where
  "backoffFactor rateLimit = (if rateLimit then 2.5 else 2.0)"

definition backoffDelay :: "real \<Rightarrow> bool \<Rightarrow> nat \<Rightarrow> real" where
  "backoffDelay baseDelay rateLimit attempt =
     baseDelay * backoffFactor rateLimit ^ (attempt - 1)"

definition jitter :: "real \<Rightarrow> bool \<Rightarrow> nat \<Rightarrow> real \<Rightarrow> real" where
  "jitter baseDelay rateLimit attempt random =
     backoffDelay baseDelay rateLimit attempt * 0.25 * (random * 2 - 1)"

definition finalDelay :: "real \<Rightarrow> bool \<Rightarrow> nat \<Rightarrow> real \<Rightarrow> real" where
  "finalDelay baseDelay rateLimit attempt random =
     max 2000 (backoffDelay baseDelay rateLimit attempt
               + jitter baseDelay rateLimit attempt random)"

text \<open>
  What one call of \<^verbatim>\<open>withRetry\<close> does: the value returned or the error thrown, the
  number of invocations of \<^verbatim>\<open>fn\<close>, and the delays slept (in order).
\<close>

record 'a retry_run =
  outcome :: "js_error + 'a"
  invocations :: nat
  sleeps :: "real list"

text \<open>The error of the last line, \<^verbatim>\<open>new Error("Maximum retry attempts exceeded for API quota.")\<close>.\<close>

definition max_retry_error :: js_error where
  "max_retry_error =
     \<lparr>toString = ''Error: Maximum retry attempts exceeded for API quota.'',
      message = Some ''Maximum retry attempts exceeded for API quota.''\<rparr>"

text \<open>
  The \<^verbatim>\<open>while (attempt <= retries)\<close> loop. The operation \<open>fn\<close> is an oracle: \<open>fn k\<close> is
  what its invocation number \<open>k\<close> (from 0) does, \<open>Inl\<close> a thrown error and \<open>Inr\<close> a result.
  \<open>rnd j\<close> is the value of the \<open>j\<close>-th call of \<^verbatim>\<open>Math.random()\<close>; one is drawn per sleep.
\<close>

function withRetry_loop ::
  "(nat \<Rightarrow> js_error + 'a) \<Rightarrow> (nat \<Rightarrow> real) \<Rightarrow> int \<Rightarrow> real \<Rightarrow> nat \<Rightarrow> nat \<Rightarrow> real list
     \<Rightarrow> 'a retry_run" where
  "withRetry_loop fn rnd retries baseDelay attempt calls slept =
     (if int attempt \<le> retries then
        (case fn calls of
           Inr v \<Rightarrow> \<lparr>outcome = Inr v, invocations = calls + 1, sleeps = slept\<rparr>
         | Inl error \<Rightarrow>
             (if int (attempt + 1) \<le> retries \<and> isTransient (errorStr error) then
                withRetry_loop fn rnd retries baseDelay (attempt + 1) (calls + 1)
                  (slept @ [finalDelay baseDelay (isRateLimit (errorStr error)) (attempt + 1)
                              (rnd (length slept))])
              else \<lparr>outcome = Inl error, invocations = calls + 1, sleeps = slept\<rparr>))
      else \<lparr>outcome = Inl max_retry_error, invocations = calls, sleeps = slept\<rparr>)"
  by pat_completeness auto
termination
  by (relation "measure (\<lambda>(fn, rnd, retries, baseDelay, attempt, calls, slept).
                  nat (retries + 1 - int attempt))") auto

declare withRetry_loop.simps [simp del]

definition withRetry ::
  "(nat \<Rightarrow> js_error + 'a) \<Rightarrow> (nat \<Rightarrow> real) \<Rightarrow> int \<Rightarrow> real \<Rightarrow> 'a retry_run" where
  "withRetry fn rnd retries baseDelay = withRetry_loop fn rnd retries baseDelay 0 0 []"

text \<open>The invocation \<open>k\<close> of the operation throws an error classified transient.\<close>

definition failsTransient :: "(nat \<Rightarrow> js_error + 'a) \<Rightarrow> nat \<Rightarrow> bool" where
  "failsTransient fn k =
     (case fn k of Inl error \<Rightarrow> isTransient (errorStr error) | Inr v \<Rightarrow> False)"

definition rateLimited :: "(nat \<Rightarrow> js_error + 'a) \<Rightarrow> nat \<Rightarrow> bool" where
  "rateLimited fn k =
     (case fn k of Inl error \<Rightarrow> isRateLimit (errorStr error) | Inr v \<Rightarrow> False)"

section \<open>Data model (src/types.ts)\<close>

datatype ModelTier = Flash | Pro

datatype ImageSize = Size1K | Size2K | Size4K

datatype Status = Pending | Processing | Completed | Error

record ColorDefinition =
  name :: string
  hex :: string
  category :: "string option"

record ProcessedResult =
  color :: "ColorDefinition option"
  url :: string
  prompt :: "string option"
  size_res :: "ImageSize option"

record ProcessedImage =
  id_img :: string
  originalUrl :: "string option"
  results :: "ProcessedResult list"
  status :: Status
  errorMsg :: "string option"
  activeResultIndex :: "nat option"

text \<open>
  Of \<^verbatim>\<open>AppSettings\<close> the batch handler reads \<^verbatim>\<open>targetColors\<close> and \<^verbatim>\<open>modelTier\<close>; the other
  fields only travel to the external service.
\<close>

record AppSettings =
  targetColors :: "ColorDefinition list"
  modelTier :: ModelTier

section \<open>Batch orchestrator: \<^verbatim>\<open>handleRecolorBatch\<close> (src/App.tsx, lines 79-148)\<close>

text \<open>The React state that the handler reads and writes.\<close>

record app_state =
  images :: "ProcessedImage list"
  isProcessing :: bool
  isSampling :: bool
  processingProgress :: real
  rateLimitActive :: bool
  hasApiKey :: "bool option"
  settings :: AppSettings

text \<open>An element of \<^verbatim>\<open>tasks\<close>: \<^verbatim>\<open>{ imageId: img.id, color, originalUrl: img.originalUrl }\<close>.\<close>

record task =
  imageId :: string
  task_color :: ColorDefinition
  task_originalUrl :: "string option"

text \<open>
  The two nested \<^verbatim>\<open>for ... of\<close> loops that fill \<^verbatim>\<open>tasks\<close> with \<^verbatim>\<open>push\<close>: the outer one over the
  images, the inner one over the target colors.
\<close>

definition build_tasks :: "ProcessedImage list \<Rightarrow> ColorDefinition list \<Rightarrow> task list" where
  "build_tasks imgs colors =
     fold (\<lambda>img tasks.
             fold (\<lambda>color' tasks'.
                     tasks' @ [\<lparr>imageId = id_img img, task_color = color',
                                task_originalUrl = originalUrl img\<rparr>])
                  colors tasks)
          imgs []"

text \<open>
  The update of one image after a successful recolor. \<^verbatim>\<open>r.color?.hex !== task.color.hex\<close> is
  strict string inequality; a result without a color has hex \<^verbatim>\<open>undefined\<close> and is kept.
\<close>

definition on_success :: "task \<Rightarrow> string \<Rightarrow> ProcessedImage \<Rightarrow> ProcessedImage" where
  "on_success task' processedBase64 img =
     (if id_img img = imageId task' then
        (let existingResults =
               filter (\<lambda>r. map_option hex (color r) \<noteq> Some (hex (task_color task')))
                      (results img)
         in img\<lparr>results := existingResults @
                      [\<lparr>color = Some (task_color task'), url = processedBase64,
                        prompt = None, size_res = None\<rparr>],
                 status := Completed,
                 activeResultIndex := Some (length existingResults)\<rparr>)
      else img)"

definition isApiKeyError :: "string \<Rightarrow> bool" where
  "isApiKeyError errStr \<longleftrightarrow>
     includesStr errStr ''Requested entity was not found'' \<or> includesStr errStr ''APIKEY_ERROR''"

definition failure_message :: "string \<Rightarrow> string" where
  "failure_message errStr =
     (if isApiKeyError errStr then ''API Key invalid or missing for selected engine.''
      else if isRateLimit errStr
           then ''Quota limit hit. System is retrying with exponential backoff.''
      else ''Generation error. Please try again.'')"

text \<open>The update of one image after a failed recolor.\<close>

definition on_failure :: "task \<Rightarrow> string \<Rightarrow> ProcessedImage \<Rightarrow> ProcessedImage" where
  "on_failure task' errStr img =
     (if id_img img = imageId task' \<and> length (results img) = 0 then
        img\<lparr>status := Error, errorMsg := Some (failure_message errStr)\<rparr>
      else img)"

text \<open>
  The state of a run: the React state, the locals \<^verbatim>\<open>totalTasks\<close> and \<^verbatim>\<open>completedTasks\<close>, the
  number of calls of \<^verbatim>\<open>recolorImageWithGemini\<close> made so far, and what \<^verbatim>\<open>console.error\<close> has
  received (image id and error).
\<close>

record batch_run =
  app :: app_state
  totalTasks :: nat
  completedTasks :: nat
  recolorCalls :: nat
  console :: "(string \<times> js_error) list"

text \<open>
  One iteration of \<^verbatim>\<open>for (const task of tasks)\<close>. The external service is an oracle:
  \<open>recolor k t\<close> is what call number \<open>k\<close> of \<^verbatim>\<open>recolorImageWithGemini\<close> (from 0), made for task
  \<open>t\<close>, does. Each \<^verbatim>\<open>setImages(prev => ...)\<close> is applied to the state left by the update before
  it; nothing else changes the state during the run. The pause that ends the iteration
  (5000 ms for the pro tier, 2000 ms otherwise) changes no state.
\<close>

definition process_task ::
  "(nat \<Rightarrow> task \<Rightarrow> js_error + string) \<Rightarrow> AppSettings \<Rightarrow> task \<Rightarrow> batch_run \<Rightarrow> batch_run" where
  "process_task recolor settings' task' run =
     (let run1 =
            (case recolor (recolorCalls run) task' of
               Inr processedBase64 \<Rightarrow>
                 run\<lparr>app := (app run)\<lparr>images :=
                          map (on_success task' processedBase64) (images (app run))\<rparr>\<rparr>
             | Inl err \<Rightarrow>
                 (let errStr = toString err;
                      st1 = (if isRateLimit errStr then (app run)\<lparr>rateLimitActive := True\<rparr>
                             else app run);
                      st2 = (if isApiKeyError errStr \<and> modelTier settings' = Pro
                             then st1\<lparr>hasApiKey := Some False\<rparr> else st1)
                  in run\<lparr>app := st2\<lparr>images := map (on_failure task' errStr) (images st2)\<rparr>,
                          console := console run @ [(imageId task', err)]\<rparr>));
          run2 = run1\<lparr>recolorCalls := recolorCalls run + 1,
                      completedTasks := completedTasks run + 1\<rparr>
      in run2\<lparr>app := (app run2)\<lparr>processingProgress :=
                   real (completedTasks run2) / real (totalTasks run2)\<rparr>\<rparr>)"

text \<open>The state with which the loop is entered, once both guards have passed.\<close>

definition begin_run :: "app_state \<Rightarrow> batch_run" where
  "begin_run st =
     (let st1 = st\<lparr>isProcessing := True, processingProgress := 0,
                   rateLimitActive := False, isSampling := False\<rparr>;
          tasks = build_tasks (images st) (targetColors (settings st))
      in \<lparr>app = st1\<lparr>images := map (\<lambda>img. img\<lparr>status := Processing, errorMsg := None\<rparr>)
                                   (images st1)\<rparr>,
          totalTasks = length tasks, completedTasks = 0, recolorCalls = 0, console = []\<rparr>)"

text \<open>The run after its first \<open>k\<close> tasks.\<close>

definition run_prefix ::
  "(nat \<Rightarrow> task \<Rightarrow> js_error + string) \<Rightarrow> app_state \<Rightarrow> nat \<Rightarrow> batch_run" where
  "run_prefix recolor st k =
     fold (process_task recolor (settings st))
          (take k (build_tasks (images st) (targetColors (settings st))))
          (begin_run st)"

text \<open>
  The handler. It returns no value and throws nothing. The first guard is a bare
  \<^verbatim>\<open>return\<close>; the second one (\<^verbatim>\<open>!hasApiKey\<close> holds for \<^verbatim>\<open>null\<close> and \<^verbatim>\<open>false\<close>) sets
  \<^verbatim>\<open>hasApiKey\<close> to \<^verbatim>\<open>false\<close> and returns.
\<close>

definition handleRecolorBatch ::
  "(nat \<Rightarrow> task \<Rightarrow> js_error + string) \<Rightarrow> app_state \<Rightarrow> batch_run" where
  "handleRecolorBatch recolor st =
     (if length (images st) = 0 \<or> length (targetColors (settings st)) = 0 then
        \<lparr>app = st, totalTasks = 0, completedTasks = 0, recolorCalls = 0, console = []\<rparr>
      else if modelTier (settings st) = Pro \<and> hasApiKey st \<noteq> Some True then
        \<lparr>app = st\<lparr>hasApiKey := Some False\<rparr>,
         totalTasks = 0, completedTasks = 0, recolorCalls = 0, console = []\<rparr>
      else
        (let run = fold (process_task recolor (settings st))
                        (build_tasks (images st) (targetColors (settings st)))
                        (begin_run st)
         in run\<lparr>app := (app run)\<lparr>isProcessing := False, rateLimitActive := False\<rparr>\<rparr>))"

text \<open>The task built for one image and one color.\<close>

definition mk_task :: "ProcessedImage \<Rightarrow> ColorDefinition \<Rightarrow> task" where
  "mk_task img c = \<lparr>imageId = id_img img, task_color = c, task_originalUrl = originalUrl img\<rparr>"

text \<open>
  The handler returns no value and throws nothing: a caller can learn that a start was
  refused only from a change of the state or from a diagnostic.
\<close>

definition rejection_reported :: "app_state \<Rightarrow> batch_run \<Rightarrow> bool" where
  "rejection_reported st run \<longleftrightarrow> \<not> (app run = st \<and> console run = [])"

text \<open>The tasks of a run, and the images after its first \<open>k\<close> tasks.\<close>

abbreviation batch_tasks :: "app_state \<Rightarrow> task list" where
  "batch_tasks st \<equiv> build_tasks (images st) (targetColors (settings st))"

abbreviation images_after ::
  "(nat \<Rightarrow> task \<Rightarrow> js_error + string) \<Rightarrow> app_state \<Rightarrow> nat \<Rightarrow> ProcessedImage list" where
  "images_after recolor st k \<equiv> images (app (run_prefix recolor st k))"

text \<open>
  An image on which a result has been written: \<^verbatim>\<open>completed\<close>, with a result list that is
  not empty.
\<close>

definition has_success :: "ProcessedImage \<Rightarrow> bool" where
  "has_success img \<longleftrightarrow> status img = Completed \<and> results img \<noteq> []"

text \<open>
  The hex strings of the results that carry a color, in list order, and the property that
  no two of them are the same string.
\<close>

definition result_hexes :: "ProcessedResult list \<Rightarrow> string list" where
  "result_hexes rs = List.map_filter (\<lambda>r. map_option hex (color r)) rs"

definition unique_hexes :: "ProcessedImage \<Rightarrow> bool" where
  "unique_hexes img \<longleftrightarrow> distinct (result_hexes (results img))"

text \<open>
  \<^verbatim>\<open>toLowerCase\<close> on ASCII text, as the color selection applies it to hex strings
  (\<^verbatim>\<open>c.hex.toLowerCase() === hex.toLowerCase()\<close> in \<^verbatim>\<open>handleSampleColor\<close>, \<^verbatim>\<open>toggleColor\<close>
  and \<^verbatim>\<open>addCustomColor\<close>).
\<close>

definition toLowerCaseChar :: "char \<Rightarrow> char" where
  "toLowerCaseChar c =
     (case map_of (zip ''ABCDEFGHIJKLMNOPQRSTUVWXYZ'' ''abcdefghijklmnopqrstuvwxyz'') c of
        Some l \<Rightarrow> l
      | None \<Rightarrow> c)"

definition toLowerCase :: "string \<Rightarrow> string" where
  "toLowerCase s = map toLowerCaseChar s"

section \<open>Color sampler: \<^verbatim>\<open>getHexColor\<close> and \<^verbatim>\<open>getRefColor\<close> (src/components/Controls.tsx, lines 522-537 and 100-114)\<close>




text \<open>
  JavaScript arithmetic is IEEE 754 double precision: the result of an operation is the
  exact result rounded to the nearest double, ties to the even significand. A double has a
  significand of 53 bits; below \<open>2 ^ - 1022\<close> the spacing stays \<open>2 ^ - 1074\<close> (subnormal numbers).
  \<open>binaryExponent v\<close> is the \<open>e\<close> with \<open>2 ^ e \<le> \<bar>v\<bar> < 2 ^ (e + 1)\<close>. Results beyond the largest
  finite double, \<^verbatim>\<open>NaN\<close> and a division by zero are outside the model.
\<close>

function ilog2 :: "int \<Rightarrow> int" where
  "ilog2 n = (if n < 2 then 0 else 1 + ilog2 (n div 2))"
  by pat_completeness auto
termination
  by (relation "measure nat") auto

declare ilog2.simps [simp del]

definition binaryExponent :: "rat \<Rightarrow> int" where
  "binaryExponent v =
     (let (p, q) = quotient_of \<bar>v\<bar>;
          g = ilog2 p - ilog2 q
      in if 2 powi g \<le> \<bar>v\<bar> then g else g - 1)"

definition roundTiesToEven :: "rat \<Rightarrow> int" where
  "roundTiesToEven r =
     (let f = \<lfloor>r\<rfloor>; d = r - of_int f
      in if d < 1 / 2 then f
         else if 1 / 2 < d then f + 1
         else if even f then f else f + 1)"

definition toDouble :: "rat \<Rightarrow> rat" where
  "toDouble v =
     (if v = 0 then 0
      else (let ulp = 2 powi (max (binaryExponent v) (- 1022) - 52)
            in of_int (roundTiesToEven (v / ulp)) * ulp))"

text \<open>The operators \<^verbatim>\<open>/\<close>, \<^verbatim>\<open>*\<close> and \<^verbatim>\<open>-\<close> on doubles.\<close>

definition fdiv :: "rat \<Rightarrow> rat \<Rightarrow> rat" where
  "fdiv a b = toDouble (a / b)"

definition fmul :: "rat \<Rightarrow> rat \<Rightarrow> rat" where
  "fmul a b = toDouble (a * b)"













section \<open>Concrete inputs\<close>

definition colorRed :: ColorDefinition where
  "colorRed = \<lparr>name = ''Red'', hex = ''#FF0000'', category = None\<rparr>"

definition colorBlue :: ColorDefinition where
  "colorBlue = \<lparr>name = ''Blue'', hex = ''#0000FF'', category = None\<rparr>"

definition imgA :: ProcessedImage where
  "imgA = \<lparr>id_img = ''imgA'', originalUrl = Some ''data:image/png;base64,AAAA'', results = [],
           status = Pending, errorMsg = None, activeResultIndex = None\<rparr>"

definition imgB :: ProcessedImage where
  "imgB = \<lparr>id_img = ''imgB'', originalUrl = Some ''data:image/png;base64,BBBB'', results = [],
           status = Pending, errorMsg = None, activeResultIndex = None\<rparr>"

definition state0 :: "ProcessedImage list \<Rightarrow> ColorDefinition list \<Rightarrow> app_state" where
  "state0 imgs colors =
     \<lparr>images = imgs, isProcessing = False, isSampling = False, processingProgress = 0,
      rateLimitActive = False, hasApiKey = None,
      settings = \<lparr>targetColors = colors, modelTier = Flash\<rparr>\<rparr>"

definition alwaysFails :: "js_error \<Rightarrow> nat \<Rightarrow> task \<Rightarrow> js_error + string" where
  "alwaysFails err k t = Inl err"

text \<open>Errors used as concrete inputs.\<close>

definition error503 :: js_error where
  "error503 = \<lparr>toString = ''Error: 503 Service Unavailable'',
               message = Some ''503 Service Unavailable''\<rparr>"

definition error429 :: js_error where
  "error429 = \<lparr>toString = ''Error: 429 Too Many Requests'',
               message = Some ''429 Too Many Requests''\<rparr>"

definition errorBadRequest :: js_error where
  "errorBadRequest = \<lparr>toString = ''Error: 400 Bad Request'', message = Some ''400 Bad Request''\<rparr>"

text \<open>A service that recolors to red only.\<close>

definition redOnly :: "nat \<Rightarrow> task \<Rightarrow> js_error + string" where
  "redOnly k t = (if hex (task_color t) = ''#FF0000'' then Inr ''data:image/png;base64,RED''
                  else Inl error503)"

text \<open>
  The preset "Pure White" of the color library, the same color as the color input of the
  browser spells it, and an image that holds a result for the latter.
\<close>

definition colorWhitePreset :: ColorDefinition where
  "colorWhitePreset = \<lparr>name = ''Pure White'', hex = ''#FFFFFF'', category = None\<rparr>"

definition colorWhiteCustom :: ColorDefinition where
  "colorWhiteCustom = \<lparr>name = ''Custom'', hex = ''#ffffff'', category = None\<rparr>"

definition imgWithCustomWhite :: ProcessedImage where
  "imgWithCustomWhite =
     \<lparr>id_img = ''imgA'', originalUrl = Some ''data:image/png;base64,AAAA'',
      results = [\<lparr>color = Some colorWhiteCustom, url = ''data:image/png;base64,OLD'',
                  prompt = None, size_res = None\<rparr>],
      status = Completed, errorMsg = None, activeResultIndex = Some 0\<rparr>"



section \<open>Substring search\<close>

text \<open>\<open>includesStr s sub\<close> holds exactly when \<open>sub\<close> is a contiguous part of \<open>s\<close>.\<close>

lemma startsWith_iff: "startsWith s sub \<longleftrightarrow> (\<exists>q. s = sub @ q)"
  by (induction s sub rule: startsWith.induct) auto

lemma includesStr_iff: "includesStr s sub \<longleftrightarrow> (\<exists>p q. s = p @ sub @ q)"
proof (induction s)
  case Nil
  then show ?case by simp
next
  case (Cons x xs)
  show ?case
  proof
    assume "includesStr (x # xs) sub"
    then consider "startsWith (x # xs) sub" | "includesStr xs sub" by auto
    then show "\<exists>p q. x # xs = p @ sub @ q"
    proof cases
      case 1
      then obtain q where "x # xs = sub @ q" by (auto simp: startsWith_iff)
      then have "x # xs = [] @ sub @ q" by simp
      then show ?thesis by blast
    next
      case 2
      with Cons.IH obtain p q where "xs = p @ sub @ q" by blast
      then have "x # xs = (x # p) @ sub @ q" by simp
      then show ?thesis by blast
    qed
  next
    assume "\<exists>p q. x # xs = p @ sub @ q"
    then obtain p q where pq: "x # xs = p @ sub @ q" by blast
    show "includesStr (x # xs) sub"
    proof (cases p)
      case Nil
      with pq have "startsWith (x # xs) sub" by (auto simp: startsWith_iff)
      then show ?thesis by simp
    next
      case (Cons y ys)
      with pq have "xs = ys @ sub @ q" by simp
      with Cons.IH have "includesStr xs sub" by blast
      then show ?thesis by simp
    qed
  qed
qed

section \<open>Properties of the retry loop\<close>

lemma withRetry_loop_transient_step:
  assumes "int (attempt + 1) \<le> retries" and "failsTransient fn calls"
  shows "withRetry_loop fn rnd retries baseDelay attempt calls slept =
         withRetry_loop fn rnd retries baseDelay (attempt + 1) (calls + 1)
           (slept @ [finalDelay baseDelay (rateLimited fn calls) (attempt + 1)
                       (rnd (length slept))])"
  using assms
  by (subst withRetry_loop.simps)
     (auto simp: failsTransient_def rateLimited_def split: sum.splits)

lemma withRetry_loop_transient_prefix:
  assumes "int (attempt + n) \<le> retries" and "\<forall>k<n. failsTransient fn (calls + k)"
  shows "withRetry_loop fn rnd retries baseDelay attempt calls slept =
         withRetry_loop fn rnd retries baseDelay (attempt + n) (calls + n)
           (slept @ map (\<lambda>k. finalDelay baseDelay (rateLimited fn (calls + k)) (attempt + k + 1)
                                 (rnd (length slept + k))) [0..<n])"
  using assms
proof (induction n)
  case 0
  then show ?case by simp
next
  case (Suc n)
  have step: "withRetry_loop fn rnd retries baseDelay (attempt + n) (calls + n) sl =
              withRetry_loop fn rnd retries baseDelay (attempt + n + 1) (calls + n + 1)
                (sl @ [finalDelay baseDelay (rateLimited fn (calls + n)) (attempt + n + 1)
                         (rnd (length sl))])" for sl
    using Suc.prems by (intro withRetry_loop_transient_step) auto
  from Suc show ?case
    by (simp add: step)
qed

lemma withRetry_loop_exhausted:
  assumes "int attempt = retries" and "fn calls = Inl error"
  shows "withRetry_loop fn rnd retries baseDelay attempt calls slept =
         \<lparr>outcome = Inl error, invocations = calls + 1, sleeps = slept\<rparr>"
  using assms by (subst withRetry_loop.simps) simp

text \<open>
  C1. An operation that fails with a transient error on every invocation is invoked exactly
  \<open>retries + 1\<close> times (9 times under the default \<open>retries = 8\<close>), one backoff sleep separates
  consecutive invocations, and the error thrown to the caller is the error of the final
  invocation.
\<close>

theorem withRetry_budget_exhausted:
  assumes "0 \<le> retries" and "\<forall>k. failsTransient fn k"
  shows "invocations (withRetry fn rnd retries baseDelay) = nat retries + 1
       \<and> outcome (withRetry fn rnd retries baseDelay) = fn (nat retries)
       \<and> isl (fn (nat retries))
       \<and> length (sleeps (withRetry fn rnd retries baseDelay)) = nat retries
       \<and> (retries = 8 \<longrightarrow>
            invocations (withRetry fn rnd retries baseDelay) = 9
            \<and> outcome (withRetry fn rnd retries baseDelay) = fn 8)"
proof -
  obtain error where e: "fn (nat retries) = Inl error"
    using assms(2) [rule_format, of "nat retries"]
    by (cases "fn (nat retries)") (auto simp: failsTransient_def)
  have "withRetry fn rnd retries baseDelay =
        withRetry_loop fn rnd retries baseDelay (0 + nat retries) (0 + nat retries)
          ([] @ map (\<lambda>k. finalDelay baseDelay (rateLimited fn (0 + k)) (0 + k + 1)
                            (rnd (length ([]::real list) + k))) [0..<nat retries])"
    unfolding withRetry_def using assms
    by (intro withRetry_loop_transient_prefix) auto
  also have "\<dots> = \<lparr>outcome = Inl error, invocations = nat retries + 1,
                    sleeps = map (\<lambda>k. finalDelay baseDelay (rateLimited fn k) (k + 1) (rnd k))
                               [0..<nat retries]\<rparr>"
    using assms(1) e by (simp add: withRetry_loop_exhausted)
  finally have run: "withRetry fn rnd retries baseDelay =
      \<lparr>outcome = fn (nat retries), invocations = nat retries + 1,
       sleeps = map (\<lambda>k. finalDelay baseDelay (rateLimited fn k) (k + 1) (rnd k))
                  [0..<nat retries]\<rparr>"
    using e by simp
  have inv: "invocations (withRetry fn rnd retries baseDelay) = nat retries + 1"
    and out: "outcome (withRetry fn rnd retries baseDelay) = fn (nat retries)"
    and len: "length (sleeps (withRetry fn rnd retries baseDelay)) = nat retries"
    by (simp_all add: run)
  have dflt: "invocations (withRetry fn rnd retries baseDelay) = 9
              \<and> outcome (withRetry fn rnd retries baseDelay) = fn 8" if "retries = 8"
    using inv out that by simp
  from inv out len dflt e show ?thesis by simp
qed

theorem withRetry_budget_exhausted_witness:
  "invocations (withRetry (\<lambda>k. Inl error503 :: js_error + string) (\<lambda>j. 0) 8 4000) = 9
   \<and> outcome (withRetry (\<lambda>k. Inl error503 :: js_error + string) (\<lambda>j. 0) 8 4000) = Inl error503
   \<and> length (sleeps (withRetry (\<lambda>k. Inl error503 :: js_error + string) (\<lambda>j. 0) 8 4000)) = 8"
proof -
  have t: "\<forall>k. failsTransient (\<lambda>k. Inl error503 :: js_error + string) k"
    by (simp add: failsTransient_def isTransient_def isRateLimit_def errorStr_def error503_def)
  have r: "(0::int) \<le> 8" by simp
  show ?thesis
    using withRetry_budget_exhausted [OF r t, of "\<lambda>j. 0" 4000] by simp
qed

lemma withRetry_loop_sleeps_extend:
  "\<exists>ext. sleeps (withRetry_loop fn rnd retries baseDelay attempt calls slept) = slept @ ext"
proof (induction fn rnd retries baseDelay attempt calls slept rule: withRetry_loop.induct)
  case (1 fn rnd retries baseDelay attempt calls slept)
  show ?case
  proof (cases "int attempt \<le> retries")
    case False
    then show ?thesis by (subst withRetry_loop.simps) simp
  next
    case in_loop: True
    show ?thesis
    proof (cases "fn calls")
      case (Inr v)
      with in_loop show ?thesis by (subst withRetry_loop.simps) simp
    next
      case (Inl error)
      show ?thesis
      proof (cases "int (attempt + 1) \<le> retries \<and> isTransient (errorStr error)")
        case True
        from "1.IH" [OF in_loop Inl True] obtain ext where
          "sleeps (withRetry_loop fn rnd retries baseDelay (attempt + 1) (calls + 1)
             (slept @ [finalDelay baseDelay (isRateLimit (errorStr error)) (attempt + 1)
                         (rnd (length slept))])) =
           (slept @ [finalDelay baseDelay (isRateLimit (errorStr error)) (attempt + 1)
                         (rnd (length slept))]) @ ext"
          by blast
        with in_loop Inl True show ?thesis
          by (subst withRetry_loop.simps) simp
      next
        case False
        with in_loop Inl show ?thesis by (subst withRetry_loop.simps) auto
      qed
    qed
  qed
qed

lemma withRetry_loop_fatal:
  assumes "int attempt \<le> retries" and "fn calls = Inl error"
    and "\<not> isTransient (errorStr error)"
  shows "withRetry_loop fn rnd retries baseDelay attempt calls slept =
         \<lparr>outcome = Inl error, invocations = calls + 1, sleeps = slept\<rparr>"
  using assms by (subst withRetry_loop.simps) simp

lemma withRetry_transient_prefix:
  assumes "int n \<le> retries" and "\<forall>k<n. failsTransient fn k"
  shows "withRetry fn rnd retries baseDelay =
         withRetry_loop fn rnd retries baseDelay n n
           (map (\<lambda>k. finalDelay baseDelay (rateLimited fn k) (k + 1) (rnd k)) [0..<n])"
  using withRetry_loop_transient_prefix [of 0 n retries fn 0 rnd baseDelay "[]"] assms
  by (simp add: withRetry_def)

text \<open>
  C2. A retry needs one of the markers "429", "RESOURCE_EXHAUSTED", "500", "503",
  "Rpc failed" or "xhr error" in the error's description. When an invocation (the first one,
  or one reached after \<open>n\<close> transient failures) throws an error whose description contains none
  of them, that error is rethrown at once: the operation is not invoked again and no further
  sleep happens, whatever remains of the budget.
\<close>

theorem withRetry_fatal_immediate:
  assumes "int n \<le> retries" and "\<forall>k<n. failsTransient fn k"
    and "fn n = Inl error"
    and "\<not> includesStr (errorStr error) ''429''"
    and "\<not> includesStr (errorStr error) ''RESOURCE_EXHAUSTED''"
    and "\<not> includesStr (errorStr error) ''500''"
    and "\<not> includesStr (errorStr error) ''503''"
    and "\<not> includesStr (errorStr error) ''Rpc failed''"
    and "\<not> includesStr (errorStr error) ''xhr error''"
  shows "outcome (withRetry fn rnd retries baseDelay) = Inl error
       \<and> invocations (withRetry fn rnd retries baseDelay) = n + 1
       \<and> length (sleeps (withRetry fn rnd retries baseDelay)) = n"
proof -
  have "\<not> isTransient (errorStr error)"
    using assms(4-9) by (simp add: isTransient_def isRateLimit_def)
  then show ?thesis
    using assms(1-3)
    by (simp add: withRetry_transient_prefix withRetry_loop_fatal)
qed

theorem withRetry_fatal_immediate_witness:
  "outcome (withRetry (\<lambda>k. Inl errorBadRequest :: js_error + string) (\<lambda>j. 0) 8 4000)
     = Inl errorBadRequest
   \<and> invocations (withRetry (\<lambda>k. Inl errorBadRequest :: js_error + string) (\<lambda>j. 0) 8 4000) = 1
   \<and> sleeps (withRetry (\<lambda>k. Inl errorBadRequest :: js_error + string) (\<lambda>j. 0) 8 4000) = []"
  using withRetry_fatal_immediate [of 0 8 "\<lambda>k. Inl errorBadRequest :: js_error + string"
          errorBadRequest "\<lambda>j. 0" 4000]
  by (simp add: errorBadRequest_def errorStr_def)

lemma backoffDelay_mono:
  assumes "0 \<le> baseDelay" and "1 \<le> a" and "a \<le> b"
  shows "backoffDelay baseDelay rl a \<le> backoffDelay baseDelay rl b"
proof -
  have "backoffFactor rl ^ (a - 1) \<le> backoffFactor rl ^ (b - 1)"
    using assms(2,3) by (intro power_increasing) (auto simp: backoffFactor_def)
  then show ?thesis
    unfolding backoffDelay_def using assms(1) by (rule mult_left_mono)
qed

lemma finalDelay_bounds:
  assumes "0 \<le> baseDelay" and "0 \<le> random" and "random < 1"
  shows "\<exists>j. - (0.25 * backoffDelay baseDelay rl k) \<le> j
           \<and> j \<le> 0.25 * backoffDelay baseDelay rl k
           \<and> finalDelay baseDelay rl k random = max 2000 (backoffDelay baseDelay rl k + j)"
proof -
  have d: "0 \<le> backoffDelay baseDelay rl k"
    using assms(1) by (simp add: backoffDelay_def backoffFactor_def)
  have c: "0 \<le> backoffDelay baseDelay rl k * 0.25"
    using d by simp
  have lo: "- 1 \<le> random * 2 - 1" and hi: "random * 2 - 1 \<le> 1"
    using assms(2,3) by simp_all
  have "backoffDelay baseDelay rl k * 0.25 * (- 1) \<le> jitter baseDelay rl k random"
    unfolding jitter_def using lo c by (rule mult_left_mono)
  moreover have "jitter baseDelay rl k random \<le> backoffDelay baseDelay rl k * 0.25 * 1"
    unfolding jitter_def using hi c by (rule mult_left_mono)
  ultimately have "- (0.25 * backoffDelay baseDelay rl k) \<le> jitter baseDelay rl k random
      \<and> jitter baseDelay rl k random \<le> 0.25 * backoffDelay baseDelay rl k"
    by simp
  then show ?thesis
    unfolding finalDelay_def by blast
qed


text \<open>
  C3. While the first \<open>n\<close> attempts fail with transient errors and are retried, the delay slept
  after attempt \<open>k\<close> (counted from 1) is \<open>max 2000 (d + j)\<close>, where the delay before jitter is
  \<open>d = baseDelay * f ^ (k - 1)\<close> with \<open>f = 2.5\<close> for a rate-limit error and \<open>f = 2\<close> for any other
  transient error, and the jitter \<open>j\<close> lies between \<open>- 0.25 * d\<close> and \<open>0.25 * d\<close>. The delay slept is
  at least 2000, and for a fixed classification the delay before jitter does not decrease
  from one attempt to a later one. \<open>Math.random()\<close> returns a value in \<open>[0, 1)\<close>; the base delay
  is not negative (4000 in every call of the program).
\<close>

theorem withRetry_backoff_delay:
  assumes "0 \<le> baseDelay" and "\<forall>j. 0 \<le> rnd j \<and> rnd j < 1"
    and "int n \<le> retries" and "\<forall>i<n. failsTransient fn i"
    and "1 \<le> k" and "k \<le> n"
  shows "k \<le> length (sleeps (withRetry fn rnd retries baseDelay))
       \<and> (\<exists>j. - (0.25 * (baseDelay * (if rateLimited fn (k - 1) then 2.5 else 2.0) ^ (k - 1))) \<le> j
              \<and> j \<le> 0.25 * (baseDelay * (if rateLimited fn (k - 1) then 2.5 else 2.0) ^ (k - 1))
              \<and> sleeps (withRetry fn rnd retries baseDelay) ! (k - 1) =
                  max 2000 (baseDelay * (if rateLimited fn (k - 1) then 2.5 else 2.0) ^ (k - 1) + j))
       \<and> 2000 \<le> sleeps (withRetry fn rnd retries baseDelay) ! (k - 1)
       \<and> (\<forall>rl a b. 1 \<le> a \<and> a \<le> b \<longrightarrow>
              backoffDelay baseDelay rl a \<le> backoffDelay baseDelay rl b)"
proof -
  let ?pre = "map (\<lambda>i. finalDelay baseDelay (rateLimited fn i) (i + 1) (rnd i)) [0..<n]"
  obtain ext where ext: "sleeps (withRetry fn rnd retries baseDelay) = ?pre @ ext"
    using withRetry_loop_sleeps_extend [of fn rnd retries baseDelay n n ?pre]
    by (auto simp: withRetry_transient_prefix [OF assms(3,4)])
  have len: "k \<le> length (sleeps (withRetry fn rnd retries baseDelay))"
    using assms(6) by (simp add: ext)
  have nth: "sleeps (withRetry fn rnd retries baseDelay) ! (k - 1) =
             finalDelay baseDelay (rateLimited fn (k - 1)) k (rnd (k - 1))"
  proof -
    have "k - 1 < n" and "k - 1 + 1 = k"
      using assms(5,6) by simp_all
    then show ?thesis by (simp add: ext nth_append)
  qed
  have d: "backoffDelay baseDelay (rateLimited fn (k - 1)) k =
           baseDelay * (if rateLimited fn (k - 1) then 2.5 else 2.0) ^ (k - 1)"
    by (simp add: backoffDelay_def backoffFactor_def)
  have bounds: "\<exists>j. - (0.25 * backoffDelay baseDelay (rateLimited fn (k - 1)) k) \<le> j
           \<and> j \<le> 0.25 * backoffDelay baseDelay (rateLimited fn (k - 1)) k
           \<and> finalDelay baseDelay (rateLimited fn (k - 1)) k (rnd (k - 1)) =
               max 2000 (backoffDelay baseDelay (rateLimited fn (k - 1)) k + j)"
    using assms(1,2) by (intro finalDelay_bounds) auto
  have floor: "2000 \<le> finalDelay baseDelay (rateLimited fn (k - 1)) k (rnd (k - 1))"
    by (simp add: finalDelay_def)
  have mono: "\<forall>rl a b. 1 \<le> a \<and> a \<le> b \<longrightarrow>
              backoffDelay baseDelay rl a \<le> backoffDelay baseDelay rl b"
    using assms(1) by (auto intro: backoffDelay_mono)
  from len bounds floor mono show ?thesis
    unfolding nth d by blast
qed

theorem withRetry_backoff_delay_witness:
  "3 \<le> length (sleeps (withRetry (\<lambda>i. Inl error429 :: js_error + string) (\<lambda>j. 1 / 2) 8 4000))
   \<and> (\<exists>j. - 6250 \<le> j \<and> j \<le> 6250
          \<and> sleeps (withRetry (\<lambda>i. Inl error429 :: js_error + string) (\<lambda>j. 1 / 2) 8 4000) ! 2
              = max 2000 (25000 + j))
   \<and> 2000 \<le> sleeps (withRetry (\<lambda>i. Inl error429 :: js_error + string) (\<lambda>j. 1 / 2) 8 4000) ! 2
   \<and> backoffDelay 4000 True 3 \<le> backoffDelay 4000 True 4"
proof -
  let ?fn = "\<lambda>i. Inl error429 :: js_error + string"
  have t: "\<forall>i<8. failsTransient ?fn i"
    by (simp add: failsTransient_def isTransient_def isRateLimit_def errorStr_def error429_def)
  have rl: "rateLimited ?fn 2"
    by (simp add: rateLimited_def isRateLimit_def errorStr_def error429_def)
  have r: "\<forall>j::nat. (0::real) \<le> 1 / 2 \<and> (1::real) / 2 < 1" by simp
  have b: "(0::real) \<le> 4000" and n: "int 8 \<le> 8" and k: "(1::nat) \<le> 3" "(3::nat) \<le> 8"
    by simp_all
  note w = withRetry_backoff_delay [OF b r n t k]
  show ?thesis
    using w rl by (simp add: power2_eq_square)
qed

section \<open>Properties of the task generator\<close>

lemma inner_push_loop:
  "fold (\<lambda>c ts. ts @ [f c]) colors = (\<lambda>acc. acc @ map f colors)"
proof
  show "fold (\<lambda>c ts. ts @ [f c]) colors acc = acc @ map f colors" for acc
    by (induction colors arbitrary: acc) simp_all
qed

lemma outer_push_loop:
  "fold (\<lambda>img ts. ts @ g img) imgs acc = acc @ concat (map g imgs)"
  by (induction imgs arbitrary: acc) simp_all

lemma build_tasks_concat:
  "build_tasks imgs colors = concat (map (\<lambda>img. map (mk_task img) colors) imgs)"
  unfolding build_tasks_def mk_task_def
  by (simp add: inner_push_loop outer_push_loop)

lemma length_concat_uniform:
  "\<forall>xs \<in> set xss. length xs = n \<Longrightarrow> length (concat xss) = length xss * n"
  by (induction xss) simp_all

lemma nth_concat_uniform:
  "\<forall>xs \<in> set xss. length xs = n \<Longrightarrow> i < length xss \<Longrightarrow> j < n
     \<Longrightarrow> concat xss ! (i * n + j) = xss ! i ! j"
proof (induction xss arbitrary: i)
  case Nil
  then show ?case by simp
next
  case (Cons xs xss)
  show ?case
  proof (cases i)
    case 0
    with Cons.prems show ?thesis by (simp add: nth_append)
  next
    case (Suc i')
    with Cons.prems have "concat xss ! (i' * n + j) = xss ! i' ! j"
      by (intro Cons.IH) auto
    moreover have "Suc i' * n + j = n + (i' * n + j)" by simp
    ultimately show ?thesis
      using Cons.prems Suc by (simp add: nth_append)
  qed
qed

lemma length_build_tasks:
  "length (build_tasks imgs colors) = length imgs * length colors"
proof -
  have "\<forall>xs \<in> set (map (\<lambda>img. map (mk_task img) colors) imgs). length xs = length colors"
    by auto
  from length_concat_uniform [OF this] show ?thesis
    by (simp add: build_tasks_concat)
qed

text \<open>
  C4. The task list has \<open>|I| * |C|\<close> elements; the task of the image at position \<open>i\<close> and the
  color at position \<open>j\<close> stands at position \<open>i * |C| + j\<close> (all tasks of an image are
  consecutive, in color order, and the images follow workspace order); the list is empty
  when either input is empty. The generator is a function of its two arguments alone.
\<close>

theorem build_tasks_product:
  "length (build_tasks imgs colors) = length imgs * length colors
   \<and> (\<forall>i<length imgs. \<forall>j<length colors.
         build_tasks imgs colors ! (i * length colors + j) =
           \<lparr>imageId = id_img (imgs ! i), task_color = colors ! j,
            task_originalUrl = originalUrl (imgs ! i)\<rparr>)
   \<and> (imgs = [] \<or> colors = [] \<longrightarrow> build_tasks imgs colors = [])"
proof -
  let ?rows = "map (\<lambda>img. map (mk_task img) colors) imgs"
  have uniform: "\<forall>xs \<in> set ?rows. length xs = length colors" by auto
  have len: "length (build_tasks imgs colors) = length imgs * length colors"
    by (rule length_build_tasks)
  have nth: "build_tasks imgs colors ! (i * length colors + j) =
           \<lparr>imageId = id_img (imgs ! i), task_color = colors ! j,
            task_originalUrl = originalUrl (imgs ! i)\<rparr>"
    if "i < length imgs" and "j < length colors" for i j
    using nth_concat_uniform [OF uniform, of i j] that
    by (simp add: build_tasks_concat mk_task_def)
  have empty: "build_tasks imgs colors = []" if "imgs = [] \<or> colors = []"
    using that len by auto
  from len nth empty show ?thesis by blast
qed

theorem build_tasks_product_witness:
  "length (build_tasks [imgA, imgB] [colorRed, colorBlue]) = 4
   \<and> build_tasks [imgA, imgB] [colorRed, colorBlue] ! 2 =
       \<lparr>imageId = ''imgB'', task_color = colorRed,
        task_originalUrl = Some ''data:image/png;base64,BBBB''\<rparr>
   \<and> build_tasks [] [colorRed, colorBlue] = []"
proof -
  note p = build_tasks_product [of "[imgA, imgB]" "[colorRed, colorBlue]"]
  note q = build_tasks_product [of "[]" "[colorRed, colorBlue]"]
  have len: "length (build_tasks [imgA, imgB] [colorRed, colorBlue]) = 4"
    using p by simp
  have "build_tasks [imgA, imgB] [colorRed, colorBlue] ! (1 * length [colorRed, colorBlue] + 0) =
        \<lparr>imageId = id_img ([imgA, imgB] ! 1), task_color = [colorRed, colorBlue] ! 0,
         task_originalUrl = originalUrl ([imgA, imgB] ! 1)\<rparr>"
    using p [THEN conjunct2, THEN conjunct1, rule_format, of 1 0] by simp
  then have nth: "build_tasks [imgA, imgB] [colorRed, colorBlue] ! 2 =
       \<lparr>imageId = ''imgB'', task_color = colorRed,
        task_originalUrl = Some ''data:image/png;base64,BBBB''\<rparr>"
    by (simp add: imgB_def numeral_2_eq_2)
  have "build_tasks [] [colorRed, colorBlue] = []"
    using q by simp
  with len nth show ?thesis by simp
qed

section \<open>Properties of the batch orchestrator\<close>

lemma process_task_counters:
  "completedTasks (process_task recolor s t run) = completedTasks run + 1"
  "recolorCalls (process_task recolor s t run) = recolorCalls run + 1"
  "totalTasks (process_task recolor s t run) = totalTasks run"
  by (simp_all add: process_task_def Let_def split: sum.splits)

lemma process_task_progress:
  "processingProgress (app (process_task recolor s t run)) =
     real (completedTasks run + 1) / real (totalTasks run)"
  by (simp add: process_task_def Let_def split: sum.splits)

lemma fold_process_task_counters:
  "completedTasks (fold (process_task recolor s) ts run) = completedTasks run + length ts"
  "recolorCalls (fold (process_task recolor s) ts run) = recolorCalls run + length ts"
  "totalTasks (fold (process_task recolor s) ts run) = totalTasks run"
  by (induction ts arbitrary: run) (simp_all add: process_task_counters)

lemma fold_process_task_progress:
  assumes "ts \<noteq> []"
  shows "processingProgress (app (fold (process_task recolor s) ts run)) =
         real (completedTasks run + length ts) / real (totalTasks run)"
proof -
  obtain ys y where ts: "ts = ys @ [y]"
    using assms by (cases ts rule: rev_cases) auto
  show ?thesis
    by (simp add: ts process_task_progress fold_process_task_counters)
qed

lemma begin_run_counters:
  "completedTasks (begin_run st) = 0"
  "recolorCalls (begin_run st) = 0"
  "totalTasks (begin_run st) = length (build_tasks (images st) (targetColors (settings st)))"
  "processingProgress (app (begin_run st)) = 0"
  by (simp_all add: begin_run_def Let_def)

lemma run_prefix_counters:
  assumes "k \<le> length (build_tasks (images st) (targetColors (settings st)))"
  shows "completedTasks (run_prefix recolor st k) = k"
    and "recolorCalls (run_prefix recolor st k) = k"
  using assms
  by (simp_all add: run_prefix_def fold_process_task_counters begin_run_counters)

text \<open>
  C7. A run starts with \<open>completedTasks = 0\<close>, \<open>totalTasks = |I| * |C|\<close> and progress 0. Every
  iteration adds exactly one to \<open>completedTasks\<close>, whether the external call returned or threw;
  after \<open>k\<close> tasks the counter is \<open>k\<close> and \<open>k\<close> external calls have been made, so no failure
  stops the loop. When the handler returns after a run, \<open>completedTasks = totalTasks\<close> and the
  published progress is 1, whatever the external service did.
\<close>

theorem progress_counts_every_task:
  "completedTasks (begin_run st) = 0
   \<and> totalTasks (begin_run st) = length (images st) * length (targetColors (settings st))
   \<and> processingProgress (app (begin_run st)) = 0
   \<and> (\<forall>task' run. completedTasks (process_task recolor (settings st) task' run)
                      = completedTasks run + 1)
   \<and> (\<forall>k \<le> length (images st) * length (targetColors (settings st)).
         completedTasks (run_prefix recolor st k) = k
         \<and> recolorCalls (run_prefix recolor st k) = k)
   \<and> (images st \<noteq> [] \<and> targetColors (settings st) \<noteq> []
        \<and> \<not> (modelTier (settings st) = Pro \<and> hasApiKey st \<noteq> Some True) \<longrightarrow>
        completedTasks (handleRecolorBatch recolor st)
          = totalTasks (handleRecolorBatch recolor st)
        \<and> totalTasks (handleRecolorBatch recolor st)
          = length (images st) * length (targetColors (settings st))
        \<and> recolorCalls (handleRecolorBatch recolor st)
          = length (images st) * length (targetColors (settings st))
        \<and> processingProgress (app (handleRecolorBatch recolor st)) = 1)"
proof -
  let ?tasks = "build_tasks (images st) (targetColors (settings st))"
  let ?N = "length (images st) * length (targetColors (settings st))"
  have len: "length ?tasks = ?N"
    by (rule length_build_tasks)
  have start: "completedTasks (begin_run st) = 0 \<and> totalTasks (begin_run st) = ?N
               \<and> processingProgress (app (begin_run st)) = 0"
    by (simp add: begin_run_counters len)
  have step: "\<forall>task' run. completedTasks (process_task recolor (settings st) task' run)
                = completedTasks run + 1"
    by (simp add: process_task_counters)
  have prefix: "\<forall>k \<le> ?N. completedTasks (run_prefix recolor st k) = k
                  \<and> recolorCalls (run_prefix recolor st k) = k"
    using run_prefix_counters [of _ st recolor] by (simp add: len)
  have final: "completedTasks (handleRecolorBatch recolor st)
          = totalTasks (handleRecolorBatch recolor st)
        \<and> totalTasks (handleRecolorBatch recolor st) = ?N
        \<and> recolorCalls (handleRecolorBatch recolor st) = ?N
        \<and> processingProgress (app (handleRecolorBatch recolor st)) = 1"
    if run: "images st \<noteq> []" "targetColors (settings st) \<noteq> []"
            "\<not> (modelTier (settings st) = Pro \<and> hasApiKey st \<noteq> Some True)"
  proof -
    have pos: "0 < ?N" using run(1,2) by simp
    then have ne: "?tasks \<noteq> []" using len by auto
    have h: "handleRecolorBatch recolor st =
             (fold (process_task recolor (settings st)) ?tasks (begin_run st))
               \<lparr>app := (app (fold (process_task recolor (settings st)) ?tasks (begin_run st)))
                         \<lparr>isProcessing := False, rateLimitActive := False\<rparr>\<rparr>"
      using run by (auto simp: handleRecolorBatch_def Let_def)
    show ?thesis
      using pos
      by (simp add: h fold_process_task_counters fold_process_task_progress [OF ne]
                    begin_run_counters len)
  qed
  from start step prefix final show ?thesis by blast
qed

theorem progress_counts_every_task_witness:
  "completedTasks (handleRecolorBatch (alwaysFails error503) (state0 [imgA] [colorRed, colorBlue]))
     = 2
   \<and> recolorCalls (handleRecolorBatch (alwaysFails error503) (state0 [imgA] [colorRed, colorBlue]))
     = 2
   \<and> processingProgress
       (app (handleRecolorBatch (alwaysFails error503) (state0 [imgA] [colorRed, colorBlue]))) = 1
   \<and> completedTasks (run_prefix (alwaysFails error503) (state0 [imgA] [colorRed, colorBlue]) 1)
     = 1"
proof -
  note p = progress_counts_every_task
             [of "state0 [imgA] [colorRed, colorBlue]" "alwaysFails error503"]
  have g: "images (state0 [imgA] [colorRed, colorBlue]) \<noteq> []
           \<and> targetColors (settings (state0 [imgA] [colorRed, colorBlue])) \<noteq> []
           \<and> \<not> (modelTier (settings (state0 [imgA] [colorRed, colorBlue])) = Pro
                \<and> hasApiKey (state0 [imgA] [colorRed, colorBlue]) \<noteq> Some True)"
    by (simp add: state0_def)
  have n: "length (images (state0 [imgA] [colorRed, colorBlue]))
           * length (targetColors (settings (state0 [imgA] [colorRed, colorBlue]))) = 2"
    by (simp add: state0_def)
  from p g n show ?thesis by simp
qed

text \<open>
  C8, as amended. A start requested with no image or no target color is declined: the state
  is left as it was, the external service is not called, and nothing is reported, neither a
  value nor a diagnostic.
\<close>

theorem empty_batch_declined_silently:
  assumes "images st = [] \<or> targetColors (settings st) = []"
  shows "handleRecolorBatch recolor st =
         \<lparr>app = st, totalTasks = 0, completedTasks = 0, recolorCalls = 0, console = []\<rparr>"
  using assms by (auto simp: handleRecolorBatch_def)

theorem empty_batch_declined_silently_witness:
  "handleRecolorBatch (alwaysFails error503) (state0 [imgA] []) =
     \<lparr>app = state0 [imgA] [], totalTasks = 0, completedTasks = 0, recolorCalls = 0,
      console = []\<rparr>"
  using empty_batch_declined_silently [of "state0 [imgA] []" "alwaysFails error503"]
  by (simp add: state0_def)

text \<open>
  C8, as stated, fails: with no image in the workspace, the handler changes nothing and emits
  no diagnostic, so the caller is given no rejection reason.
\<close>

theorem empty_batch_reports_nothing:
  "\<not> rejection_reported (state0 [] [colorRed])
       (handleRecolorBatch (alwaysFails error503) (state0 [] [colorRed]))"
  by (simp add: rejection_reported_def handleRecolorBatch_def state0_def)

lemma process_task_images:
  "images (app (process_task recolor s t run)) =
     map (case recolor (recolorCalls run) t of
            Inr processedBase64 \<Rightarrow> on_success t processedBase64
          | Inl err \<Rightarrow> on_failure t (toString err))
         (images (app run))"
  by (simp add: process_task_def Let_def split: sum.splits)

lemma id_img_on_success [simp]: "id_img (on_success t u img) = id_img img"
  by (simp add: on_success_def Let_def)

lemma id_img_on_failure [simp]: "id_img (on_failure t e img) = id_img img"
  by (simp add: on_failure_def)

lemma has_success_on_success:
  "has_success img \<or> id_img img = imageId t \<Longrightarrow> has_success (on_success t u img)"
  by (auto simp: has_success_def on_success_def Let_def)

lemma on_failure_has_success:
  "has_success img \<Longrightarrow> on_failure t e img = img"
  by (simp add: has_success_def on_failure_def)

lemma run_prefix_Suc:
  assumes "k < length (build_tasks (images st) (targetColors (settings st)))"
  shows "run_prefix recolor st (Suc k) =
         process_task recolor (settings st)
           (build_tasks (images st) (targetColors (settings st)) ! k) (run_prefix recolor st k)"
  using assms by (simp add: run_prefix_def take_Suc_conv_app_nth)

lemma run_prefix_ids:
  assumes "k \<le> length (build_tasks (images st) (targetColors (settings st)))"
  shows "map id_img (images (app (run_prefix recolor st k))) = map id_img (images st)"
  using assms
proof (induction k)
  case 0
  then show ?case by (simp add: run_prefix_def begin_run_def Let_def comp_def)
next
  case (Suc k)
  then have "map id_img (images (app (run_prefix recolor st k))) = map id_img (images st)"
    by simp
  moreover have "map id_img (images (app (run_prefix recolor st (Suc k)))) =
                 map id_img (images (app (run_prefix recolor st k)))"
    using Suc.prems
    by (simp add: run_prefix_Suc process_task_images comp_def split: sum.splits)
  ultimately show ?case by simp
qed

lemma run_prefix_success_kept:
  assumes "k \<le> length (build_tasks (images st) (targetColors (settings st)))"
    and "j < k"
    and "recolor j (build_tasks (images st) (targetColors (settings st)) ! j) = Inr u"
    and "img \<in> set (images (app (run_prefix recolor st k)))"
    and "id_img img = imageId (build_tasks (images st) (targetColors (settings st)) ! j)"
  shows "has_success img"
  using assms(1,2,4,5)
proof (induction k arbitrary: img)
  case 0
  then show ?case by simp
next
  case (Suc k)
  let ?tasks = "build_tasks (images st) (targetColors (settings st))"
  have k: "k < length ?tasks" and k': "k \<le> length ?tasks"
    using Suc.prems(1) by simp_all
  have calls: "recolorCalls (run_prefix recolor st k) = k"
    using run_prefix_counters(2) [OF k'] .
  obtain old where old: "old \<in> set (images (app (run_prefix recolor st k)))"
    and img: "img = (case recolor k (?tasks ! k) of
                       Inr processedBase64 \<Rightarrow> on_success (?tasks ! k) processedBase64
                     | Inl err \<Rightarrow> on_failure (?tasks ! k) (toString err)) old"
    using Suc.prems(3) by (auto simp: run_prefix_Suc [OF k] process_task_images calls)
  have id_old: "id_img old = imageId (?tasks ! j)"
    using Suc.prems(4) img by (simp split: sum.splits)
  show ?case
  proof (cases "j = k")
    case True
    with assms(3) img id_old show ?thesis
      by (simp add: has_success_on_success)
  next
    case False
    with Suc.prems(2) have "j < k" by simp
    from Suc.IH [OF k' this old id_old] have "has_success old" .
    then show ?thesis
      using img by (simp add: has_success_on_success on_failure_has_success split: sum.splits)
  qed
qed


text \<open>
  C6. Let task \<open>k\<close> of a run fail. An image that owns the task and has no result at that
  moment gets status \<open>Error\<close> and the message of the failure's category: one message for an
  API-key error, one for a rate-limit error, one for any other error, the three being
  different strings. An image that owns the task and for which an earlier task of this run
  succeeded has status \<open>Completed\<close> and is left exactly as it was: the failure changes neither
  its status nor its error message.
\<close>

theorem failure_surfaced_only_without_success:
  assumes "k < length (batch_tasks st)"
    and "recolor k (batch_tasks st ! k) = Inl err"
    and "i < length (images st)"
  shows "(id_img (images_after recolor st k ! i) = imageId (batch_tasks st ! k)
          \<and> results (images_after recolor st k ! i) = [] \<longrightarrow>
            status (images_after recolor st (Suc k) ! i) = Error
            \<and> errorMsg (images_after recolor st (Suc k) ! i) =
                Some (if isApiKeyError (toString err)
                      then ''API Key invalid or missing for selected engine.''
                      else if isRateLimit (toString err)
                      then ''Quota limit hit. System is retrying with exponential backoff.''
                      else ''Generation error. Please try again.'')
            \<and> results (images_after recolor st (Suc k) ! i) = [])
       \<and> (id_img (images_after recolor st k ! i) = imageId (batch_tasks st ! k)
          \<and> (\<exists>j<k. \<exists>u. imageId (batch_tasks st ! j) = imageId (batch_tasks st ! k)
                       \<and> recolor j (batch_tasks st ! j) = Inr u) \<longrightarrow>
            status (images_after recolor st k ! i) = Completed
            \<and> images_after recolor st (Suc k) ! i = images_after recolor st k ! i)
       \<and> distinct [''API Key invalid or missing for selected engine.'',
                   ''Quota limit hit. System is retrying with exponential backoff.'',
                   ''Generation error. Please try again.'']"
proof -
  let ?t = "batch_tasks st ! k"
  let ?before = "images_after recolor st k ! i"
  let ?after = "images_after recolor st (Suc k) ! i"
  have k': "k \<le> length (batch_tasks st)" using assms(1) by simp
  have len: "length (images_after recolor st k) = length (images st)"
    using run_prefix_ids [OF k', of recolor] by (metis length_map)
  then have i: "i < length (images_after recolor st k)" using assms(3) by simp
  have after: "?after = on_failure ?t (toString err) ?before"
    using i assms(2)
    by (simp add: run_prefix_Suc [OF assms(1)] process_task_images
                  run_prefix_counters(2) [OF k'])
  have first: "status ?after = Error
            \<and> errorMsg ?after =
                Some (if isApiKeyError (toString err)
                      then ''API Key invalid or missing for selected engine.''
                      else if isRateLimit (toString err)
                      then ''Quota limit hit. System is retrying with exponential backoff.''
                      else ''Generation error. Please try again.'')
            \<and> results ?after = []"
    if "id_img ?before = imageId ?t" and "results ?before = []"
    using that by (simp add: after on_failure_def failure_message_def)
  have second: "status ?before = Completed \<and> ?after = ?before"
    if own: "id_img ?before = imageId ?t"
      and ex: "\<exists>j<k. \<exists>u. imageId (batch_tasks st ! j) = imageId ?t
                       \<and> recolor j (batch_tasks st ! j) = Inr u"
  proof -
    from ex obtain j u where j: "j < k" "imageId (batch_tasks st ! j) = imageId ?t"
      "recolor j (batch_tasks st ! j) = Inr u" by blast
    have "?before \<in> set (images_after recolor st k)" using i by simp
    from run_prefix_success_kept [OF k' j(1) j(3) this] own j(2)
    have "has_success ?before" by simp
    then show ?thesis
      by (simp add: after on_failure_has_success) (simp add: has_success_def)
  qed
  have third: "distinct [''API Key invalid or missing for selected engine.'',
                   ''Quota limit hit. System is retrying with exponential backoff.'',
                   ''Generation error. Please try again.'']"
    by simp
  from first second third show ?thesis by blast
qed


lemmas run_eval = run_prefix_def begin_run_def process_task_def on_success_def on_failure_def
  failure_message_def build_tasks_def state0_def imgA_def colorRed_def colorBlue_def
  redOnly_def alwaysFails_def error429_def error503_def isApiKeyError_def isRateLimit_def
  Let_def

theorem failure_surfaced_only_without_success_witness:
  "status (images_after redOnly (state0 [imgA] [colorRed, colorBlue]) 1 ! 0) = Completed
   \<and> images_after redOnly (state0 [imgA] [colorRed, colorBlue]) (Suc 1) ! 0
       = images_after redOnly (state0 [imgA] [colorRed, colorBlue]) 1 ! 0
   \<and> status (images_after (alwaysFails error429) (state0 [imgA] [colorRed]) (Suc 0) ! 0) = Error
   \<and> errorMsg (images_after (alwaysFails error429) (state0 [imgA] [colorRed]) (Suc 0) ! 0)
       = Some ''Quota limit hit. System is retrying with exponential backoff.''"
proof -
  have b1: "1 < length (batch_tasks (state0 [imgA] [colorRed, colorBlue]))"
    by (simp add: run_eval)
  have b2: "redOnly 1 (batch_tasks (state0 [imgA] [colorRed, colorBlue]) ! 1) = Inl error503"
    by (simp add: run_eval)
  have b3: "0 < length (images (state0 [imgA] [colorRed, colorBlue]))"
    by (simp add: run_eval)
  have b4: "id_img (images_after redOnly (state0 [imgA] [colorRed, colorBlue]) 1 ! 0)
              = imageId (batch_tasks (state0 [imgA] [colorRed, colorBlue]) ! 1)
            \<and> (\<exists>j<1. \<exists>u. imageId (batch_tasks (state0 [imgA] [colorRed, colorBlue]) ! j)
                           = imageId (batch_tasks (state0 [imgA] [colorRed, colorBlue]) ! 1)
                         \<and> redOnly j (batch_tasks (state0 [imgA] [colorRed, colorBlue]) ! j)
                           = Inr u)"
    by (simp add: run_eval)
  have c1: "0 < length (batch_tasks (state0 [imgA] [colorRed]))"
    by (simp add: run_eval)
  have c2: "alwaysFails error429 0 (batch_tasks (state0 [imgA] [colorRed]) ! 0) = Inl error429"
    by (simp add: run_eval)
  have c3: "0 < length (images (state0 [imgA] [colorRed]))"
    by (simp add: run_eval)
  have c4: "id_img (images_after (alwaysFails error429) (state0 [imgA] [colorRed]) 0 ! 0)
              = imageId (batch_tasks (state0 [imgA] [colorRed]) ! 0)
            \<and> results (images_after (alwaysFails error429) (state0 [imgA] [colorRed]) 0 ! 0) = []"
    by (simp add: run_eval)
  have c5: "isRateLimit (toString error429) \<and> \<not> isApiKeyError (toString error429)"
    by (simp add: run_eval)
  note b = failure_surfaced_only_without_success
             [where recolor = redOnly and err = error503, OF b1 b2 b3]
  note c = failure_surfaced_only_without_success
             [where recolor = "alwaysFails error429" and err = error429, OF c1 c2 c3]
  from b b4 c c4 c5 show ?thesis by simp
qed


lemma result_hexes_filter:
  "result_hexes (filter (\<lambda>r. map_option hex (color r) \<noteq> Some h) rs) =
     filter (\<lambda>x. x \<noteq> h) (result_hexes rs)"
  by (induction rs) (auto simp: result_hexes_def split: option.splits)

lemma result_hexes_snoc:
  "result_hexes (rs @ [\<lparr>color = Some c, url = u, prompt = p, size_res = z\<rparr>]) =
     result_hexes rs @ [hex c]"
  by (simp add: result_hexes_def map_filter_def)

lemma unique_hexes_on_success:
  assumes "unique_hexes img"
  shows "unique_hexes (on_success t u img)"
proof (cases "id_img img = imageId t")
  case True
  then have "results (on_success t u img) =
        filter (\<lambda>r. map_option hex (color r) \<noteq> Some (hex (task_color t))) (results img)
        @ [\<lparr>color = Some (task_color t), url = u, prompt = None, size_res = None\<rparr>]"
    by (simp add: on_success_def Let_def)
  then have "result_hexes (results (on_success t u img)) =
        filter (\<lambda>x. x \<noteq> hex (task_color t)) (result_hexes (results img))
        @ [hex (task_color t)]"
    by (simp only: result_hexes_snoc result_hexes_filter)
  with assms show ?thesis
    by (simp add: unique_hexes_def)
next
  case False
  with assms show ?thesis by (simp add: on_success_def)
qed

lemma unique_hexes_on_failure:
  "unique_hexes (on_failure t e img) = unique_hexes img"
  by (simp add: unique_hexes_def on_failure_def)

lemma process_task_unique_hexes:
  assumes "\<forall>img \<in> set (images (app run)). unique_hexes img"
  shows "\<forall>img \<in> set (images (app (process_task recolor s t run))). unique_hexes img"
  using assms
  by (auto simp: process_task_images unique_hexes_on_success unique_hexes_on_failure
           split: sum.splits)

lemma fold_process_task_unique_hexes:
  assumes "\<forall>img \<in> set (images (app run)). unique_hexes img"
  shows "\<forall>img \<in> set (images (app (fold (process_task recolor s) ts run))). unique_hexes img"
  using assms
proof (induction ts arbitrary: run)
  case Nil
  then show ?case by simp
next
  case (Cons t ts)
  from process_task_unique_hexes [OF Cons.prems]
  have "\<forall>img \<in> set (images (app (process_task recolor s t run))). unique_hexes img" .
  from Cons.IH [OF this] show ?case by simp
qed

lemma begin_run_unique_hexes:
  assumes "\<forall>img \<in> set (images st). unique_hexes img"
  shows "\<forall>img \<in> set (images (app (begin_run st))). unique_hexes img"
  using assms by (auto simp: begin_run_def Let_def unique_hexes_def)

text \<open>
  C10. A successful task rewrites the result list of its image to the results whose hex
  string differs from the new color's hex string (exact string comparison), followed by the
  new result at the end. If no two results of an image have the same hex string before the
  update, none have after it; one task, with any outcome, and a whole run of the handler
  keep this property for every image.
\<close>

theorem exact_hex_unique_preserved:
  "(id_img img = imageId t \<longrightarrow>
      results (on_success t u img) =
        filter (\<lambda>r. map_option hex (color r) \<noteq> Some (hex (task_color t))) (results img)
        @ [\<lparr>color = Some (task_color t), url = u, prompt = None, size_res = None\<rparr>])
   \<and> (unique_hexes img \<longrightarrow> unique_hexes (on_success t u img))
   \<and> ((\<forall>img \<in> set (images (app run)). unique_hexes img) \<longrightarrow>
       (\<forall>img \<in> set (images (app (process_task recolor s t run))). unique_hexes img))
   \<and> ((\<forall>img \<in> set (images st). unique_hexes img) \<longrightarrow>
       (\<forall>img \<in> set (images (app (handleRecolorBatch recolor st))). unique_hexes img))"
proof -
  have a: "results (on_success t u img) =
        filter (\<lambda>r. map_option hex (color r) \<noteq> Some (hex (task_color t))) (results img)
        @ [\<lparr>color = Some (task_color t), url = u, prompt = None, size_res = None\<rparr>]"
    if "id_img img = imageId t"
    using that by (simp add: on_success_def Let_def)
  have d: "\<forall>img \<in> set (images (app (handleRecolorBatch recolor st))). unique_hexes img"
    if inv: "\<forall>img \<in> set (images st). unique_hexes img"
  proof -
    have "\<forall>img \<in> set (images (app (fold (process_task recolor (settings st))
                     (batch_tasks st) (begin_run st)))). unique_hexes img"
      by (intro fold_process_task_unique_hexes begin_run_unique_hexes inv)
    with inv show ?thesis
      by (simp add: handleRecolorBatch_def Let_def)
  qed
  from a d show ?thesis
    using unique_hexes_on_success process_task_unique_hexes by blast
qed

theorem exact_hex_unique_preserved_witness:
  "unique_hexes imgWithCustomWhite
   \<and> unique_hexes (on_success \<lparr>imageId = ''imgA'', task_color = colorWhiteCustom,
                                task_originalUrl = None\<rparr> ''data:image/png;base64,NEW''
                              imgWithCustomWhite)
   \<and> results (on_success \<lparr>imageId = ''imgA'', task_color = colorWhiteCustom,
                           task_originalUrl = None\<rparr> ''data:image/png;base64,NEW''
                         imgWithCustomWhite) =
       [\<lparr>color = Some colorWhiteCustom, url = ''data:image/png;base64,NEW'',
         prompt = None, size_res = None\<rparr>]"
proof -
  have u: "unique_hexes imgWithCustomWhite"
    by (simp add: unique_hexes_def result_hexes_def map_filter_def imgWithCustomWhite_def)
  have i: "id_img imgWithCustomWhite
           = imageId \<lparr>imageId = ''imgA'', task_color = colorWhiteCustom, task_originalUrl = None\<rparr>"
    by (simp add: imgWithCustomWhite_def)
  note w = exact_hex_unique_preserved
             [where img = imgWithCustomWhite
                and t = "\<lparr>imageId = ''imgA'', task_color = colorWhiteCustom,
                           task_originalUrl = None\<rparr>"
                and u = "''data:image/png;base64,NEW''"]
  note w1 = w [THEN conjunct1, rule_format, OF i]
  note w2 = w [THEN conjunct2, THEN conjunct1, rule_format, OF u]
  have "results (on_success \<lparr>imageId = ''imgA'', task_color = colorWhiteCustom,
                           task_originalUrl = None\<rparr> ''data:image/png;base64,NEW''
                         imgWithCustomWhite) =
       [\<lparr>color = Some colorWhiteCustom, url = ''data:image/png;base64,NEW'',
         prompt = None, size_res = None\<rparr>]"
    unfolding w1 by (simp add: imgWithCustomWhite_def)
  with u w2 show ?thesis by simp
qed

text \<open>
  C5 fails on the code. The image holds a result for \<open>#ffffff\<close>; a task for the preset
  \<open>#FFFFFF\<close> succeeds. The comparison is case-sensitive, so the old result is kept and the
  list holds two results for the same color.
\<close>

theorem on_success_keeps_case_variant:
  "results (on_success \<lparr>imageId = ''imgA'', task_color = colorWhitePreset,
                        task_originalUrl = Some ''data:image/png;base64,AAAA''\<rparr>
                      ''data:image/png;base64,NEW'' imgWithCustomWhite) =
     [\<lparr>color = Some colorWhiteCustom, url = ''data:image/png;base64,OLD'',
       prompt = None, size_res = None\<rparr>,
      \<lparr>color = Some colorWhitePreset, url = ''data:image/png;base64,NEW'',
       prompt = None, size_res = None\<rparr>]
   \<and> toLowerCase (hex colorWhiteCustom) = toLowerCase (hex colorWhitePreset)"
  by (simp add: on_success_def imgWithCustomWhite_def colorWhiteCustom_def
                colorWhitePreset_def toLowerCase_def toLowerCaseChar_def)

section \<open>Properties of the color sampler\<close>










text \<open>
  The rounding to a double: \<open>binaryExponent\<close> is the binary exponent of its argument, and
  \<open>roundTiesToEven\<close> gives a nearest integer, the even one of two nearest.
\<close>

lemma ilog2_bounds:
  assumes "0 < n"
  shows "0 \<le> ilog2 n \<and> 2 ^ nat (ilog2 n) \<le> n \<and> n < 2 * 2 ^ nat (ilog2 n)"
  using assms
proof (induction n rule: ilog2.induct)
  case (1 n)
  show ?case
  proof (cases "n < 2")
    case True
    with "1.prems" have n: "n = 1" by simp
    have "ilog2 1 = 0" by (subst ilog2.simps) simp
    with n show ?thesis by simp
  next
    case False
    then have pos: "0 < n div 2" by simp
    from "1.IH" [OF False pos]
    have ih: "0 \<le> ilog2 (n div 2)" "2 ^ nat (ilog2 (n div 2)) \<le> n div 2"
      "n div 2 < 2 * 2 ^ nat (ilog2 (n div 2))" by simp_all
    have eq: "ilog2 n = 1 + ilog2 (n div 2)"
      using False by (subst ilog2.simps) simp
    have nat_eq: "nat (ilog2 n) = Suc (nat (ilog2 (n div 2)))"
      using ih(1) by (simp add: eq nat_add_distrib)
    define P where "P = (2::int) ^ nat (ilog2 (n div 2))"
    have P: "P \<le> n div 2" "n div 2 < 2 * P"
      using ih by (simp_all add: P_def)
    have "2 * P \<le> n" "n < 2 * (2 * P)"
      using P by linarith+
    moreover have "2 ^ nat (ilog2 n) = 2 * P"
      by (simp only: nat_eq P_def power_Suc)
    moreover have "0 \<le> ilog2 n"
      using ih(1) by (simp add: eq)
    ultimately show ?thesis by simp
  qed
qed

lemma ilog2_powi:
  assumes "0 < n"
  shows "(2::rat) powi ilog2 n \<le> of_int n" "(of_int n :: rat) < 2 powi (ilog2 n + 1)"
proof -
  note b = ilog2_bounds [OF assms]
  have e: "(2::rat) powi ilog2 n = of_int (2 ^ nat (ilog2 n))"
    using b by (simp add: power_int_def)
  have e': "(2::rat) powi (ilog2 n + 1) = of_int (2 * 2 ^ nat (ilog2 n))"
    using b by (simp add: power_int_def nat_add_distrib)
  show "(2::rat) powi ilog2 n \<le> of_int n"
    unfolding e using b by (simp only: of_int_le_iff)
  show "(of_int n :: rat) < 2 powi (ilog2 n + 1)"
    unfolding e' using b by (simp only: of_int_less_iff)
qed

lemma binaryExponent_bounds:
  assumes "v \<noteq> 0"
  shows "2 powi binaryExponent v \<le> \<bar>v\<bar> \<and> \<bar>v\<bar> < 2 powi (binaryExponent v + 1)"
proof -
  obtain p q where pq: "quotient_of \<bar>v\<bar> = (p, q)" by (cases "quotient_of \<bar>v\<bar>")
  then have q: "0 < q" and v: "\<bar>v\<bar> = of_int p / of_int q"
    using quotient_of_denom_pos [OF pq] quotient_of_div [OF pq] by simp_all
  have p: "0 < p"
  proof -
    have "0 < \<bar>v\<bar>" using assms by simp
    then have "0 < (of_int p :: rat) / of_int q" by (simp add: v)
    with q show ?thesis by (simp add: zero_less_divide_iff)
  qed
  let ?a = "ilog2 p" and ?b = "ilog2 q"
  note a = ilog2_bounds [OF p] and b = ilog2_bounds [OF q]
  have pa: "(2::rat) powi ?a \<le> of_int p" "(of_int p :: rat) < 2 powi (?a + 1)"
    using ilog2_powi [OF p] by simp_all
  have qb: "(2::rat) powi ?b \<le> of_int q" "(of_int q :: rat) < 2 powi (?b + 1)"
    using ilog2_powi [OF q] by simp_all
  have pos: "(0::rat) < 2 powi ?a" "(0::rat) < 2 powi ?b"
    by simp_all
  have "(2::rat) powi ?a / 2 powi (?b + 1) < of_int p / of_int q"
    using pos(1) pa(1) q qb(2) by (intro frac_less2) simp_all
  moreover have "(2::rat) powi (?a - ?b - 1) = 2 powi ?a / 2 powi (?b + 1)"
    using power_int_diff [of "2::rat" ?a "?b + 1"] by (simp add: algebra_simps)
  ultimately have lower: "(2::rat) powi (?a - ?b - 1) < \<bar>v\<bar>"
    by (simp add: v)
  have "(of_int p :: rat) / of_int q < 2 powi (?a + 1) / 2 powi ?b"
    using p pa(2) pos(2) qb(1) by (intro frac_less) simp_all
  moreover have "(2::rat) powi (?a - ?b + 1) = 2 powi (?a + 1) / 2 powi ?b"
    using power_int_diff [of "2::rat" "?a + 1" ?b] by (simp add: algebra_simps)
  ultimately have upper: "\<bar>v\<bar> < (2::rat) powi (?a - ?b + 1)"
    by (simp add: v)
  show ?thesis
  proof (cases "(2::rat) powi (?a - ?b) \<le> \<bar>v\<bar>")
    case True
    then have "binaryExponent v = ?a - ?b"
      by (simp add: binaryExponent_def pq Let_def)
    with True upper show ?thesis by simp
  next
    case False
    then have "binaryExponent v = ?a - ?b - 1"
      by (simp add: binaryExponent_def pq Let_def)
    with False lower show ?thesis by simp
  qed
qed


lemma roundTiesToEven_nearest:
  "\<bar>of_int (roundTiesToEven r) - r\<bar> \<le> 1 / 2"
proof -
  have "of_int \<lfloor>r\<rfloor> \<le> r" "r < of_int \<lfloor>r\<rfloor> + 1"
    by linarith+
  then show ?thesis
    by (auto simp: roundTiesToEven_def Let_def)
qed

lemma roundTiesToEven_tie:
  assumes "\<bar>of_int (roundTiesToEven r) - r\<bar> = 1 / 2"
  shows "even (roundTiesToEven r)"
proof -
  have f: "of_int \<lfloor>r\<rfloor> \<le> r" "r < of_int \<lfloor>r\<rfloor> + 1"
    by linarith+
  show ?thesis
  proof (cases "r - of_int \<lfloor>r\<rfloor> < 1 / 2")
    case True
    with assms f show ?thesis by (simp add: roundTiesToEven_def Let_def)
  next
    case False
    show ?thesis
    proof (cases "1 / 2 < r - of_int \<lfloor>r\<rfloor>")
      case True
      with assms f False show ?thesis by (simp add: roundTiesToEven_def Let_def)
    next
      case half: False
      with False show ?thesis by (simp add: roundTiesToEven_def Let_def)
    qed
  qed
qed








lemma double_rounding_example:
  "\<lfloor>fmul 7 (fdiv 122 14)\<rfloor> = 60" "\<lfloor>(7::rat) * (122 / 14)\<rfloor> = 61"
  by code_simp simp

lemma double_rounding_examples:
  "\<lfloor>fmul 175 (fdiv 720 350)\<rfloor> = 359" "\<lfloor>fmul 77 (fdiv 640 154)\<rfloor> = 319"
  by code_simp+



end
